theory Spec2Isabelle
  imports Main "HOL-Library.Sublist"
begin

section \<open>Strings as Python sees them\<close>

text \<open>
  A Python \<open>str\<close> is modelled as a \<open>string\<close> (a list of characters with code points
  below 256).  \<open>isspace\<close> is Python's \<open>str.isspace\<close> on those code points: tab, line feed,
  vertical tab, form feed, carriage return, the four separators 0x1C to 0x1F, the blank,
  NEL (0x85) and the no-break space (0xA0).  \<open>strip\<close> and \<open>lstrip\<close> without an argument
  remove exactly these.
\<close>

definition isspace :: "char \<Rightarrow> bool" where
  "isspace c \<longleftrightarrow> (of_char c :: nat) \<in> {9, 10, 11, 12, 13, 28, 29, 30, 31, 32, 133, 160}"

definition lstrip :: "string \<Rightarrow> string" where
  "lstrip s = dropWhile isspace s"

definition rstrip :: "string \<Rightarrow> string" where
  "rstrip s = rev (dropWhile isspace (rev s))"

definition strip :: "string \<Rightarrow> string" where
  "strip s = lstrip (rstrip s)"

text \<open>
  \<open>s.split(sep)\<close> for a separator of one character: the result is never empty, and
  \<open>''''\<close> splits into one empty piece.
\<close>

fun split_str :: "char \<Rightarrow> string \<Rightarrow> string list" where
  "split_str sep [] = [[]]"
| "split_str sep (c # cs) =
     (if c = sep then [] # split_str sep cs
      else (case split_str sep cs of
              [] \<Rightarrow> [[c]]
            | l # ls \<Rightarrow> (c # l) # ls))"

text \<open>\<open>sep.join(pieces)\<close>.\<close>

fun join_str :: "string \<Rightarrow> string list \<Rightarrow> string" where
  "join_str sep [] = []"
| "join_str sep [l] = l"
| "join_str sep (l # l' # ls) = l @ sep @ join_str sep (l' # ls)"

text \<open>
  \<open>s.replace(old, new)\<close>: one scan from the left over non-overlapping occurrences; text
  produced by a replacement is not scanned again.  With an empty \<open>old\<close> Python puts
  \<open>new\<close> before every character and at the end.
\<close>

function replace_str :: "string \<Rightarrow> string \<Rightarrow> string \<Rightarrow> string" where
  "replace_str old new s =
     (if old = [] then (case s of [] \<Rightarrow> new | c # cs \<Rightarrow> new @ c # replace_str old new cs)
      else if s = [] then []
      else if prefix old s then new @ replace_str old new (drop (length old) s)
      else hd s # replace_str old new (tl s))"
  by pat_completeness auto
termination
  by (relation "measure (\<lambda>(old, new, s). length s)") auto

declare replace_str.simps [simp del]


section \<open>summarizers.py: the clean-up of a provider's text\<close>

text \<open>
  The inner loop of \<open>clean_summary\<close>:
  \<^verbatim>\<open>while stripped_line.startswith('-') or stripped_line.startswith(' '):
      stripped_line = stripped_line[1:].lstrip()\<close>
\<close>

function strip_bullets :: "string \<Rightarrow> string" where
  "strip_bullets s =
     (if prefix ''-'' s \<or> prefix '' '' s then strip_bullets (lstrip (tl s)) else s)"
  by pat_completeness auto
termination
  by (relation "measure length")
     (auto simp: lstrip_def prefix_def less_Suc_eq_le length_dropWhile_le)

declare strip_bullets.simps [simp del]

text \<open>
  The \<open>for line in lines\<close> loop of \<open>clean_summary\<close>, returning \<open>cleaned_lines\<close>.  The
  test \<open>if stripped_line\<close> comes before the leading hyphens and blanks are removed.
\<close>

fun clean_lines :: "string list \<Rightarrow> string list" where
  "clean_lines [] = []"
| "clean_lines (line # lines) =
     (let stripped_line = strip line in
      if stripped_line \<noteq> []
      then (''- '' @ strip_bullets stripped_line) # clean_lines lines
      else clean_lines lines)"

definition clean_summary :: "string \<Rightarrow> string" where
  "clean_summary summary =
     replace_str ''- -'' ''-''
       (join_str ''\<newline>'' (clean_lines (split_str CHR ''\<newline>'' summary)))"

text \<open>
  The lines of a text produced by \<open>join\<close>: the empty text has no line, any other text is
  cut at its line feeds.
\<close>

definition lines_of :: "string \<Rightarrow> string list" where
  "lines_of s = (if s = [] then [] else split_str CHR ''\<newline>'' s)"

text \<open>
  \<open>replace('- -', '-')\<close> written out for this one pattern (shown below to be
  \<open>replace_str ''- -'' ''-''\<close>): at a hyphen, a blank and a hyphen the scan emits one
  hyphen and goes on behind the three characters.
\<close>

fun collapse :: "string \<Rightarrow> string" where
  "collapse (a # b # c # rest) =
     (if a = CHR ''-'' \<and> b = CHR '' '' \<and> c = CHR ''-'' then CHR ''-'' # collapse rest
      else a # collapse (b # c # rest))"
| "collapse [a, b] = [a, b]"
| "collapse [a] = [a]"
| "collapse [] = []"

text \<open>
  A line in bullet form: the marker \<open>''- ''\<close>, then either nothing or a text that starts
  with neither a hyphen nor white space (so the marker stands once) and does not end
  in white space; the line holds no line feed.
\<close>

definition bullet_line :: "string \<Rightarrow> bool" where
  "bullet_line l \<longleftrightarrow>
     take 2 l = ''- '' \<and> CHR ''\<newline>'' \<notin> set l \<and>
     (let c = drop 2 l in
        c = [] \<or> (hd c \<noteq> CHR ''-'' \<and> \<not> isspace (hd c) \<and> \<not> isspace (last c)))"

section \<open>main.py: retrying one note\<close>

text \<open>
  The three provider coroutines talk to services outside the repository, so
  \<open>summarize_note\<close> is modelled over any behaviour they may have.  What a run does is
  recorded in a trace of events: \<open>Call ai note\<close> is one \<open>await\<close> of the coroutine of
  provider \<open>ai\<close> on \<open>note\<close> (with whatever that coroutine and its decorator do inside),
  \<open>Sleep n\<close> is \<open>asyncio.sleep(n)\<close>.  An adapter sees the trace so far, so its answer may
  change from one attempt to the next.  It returns a summary, raises
  \<open>SummarizationError\<close>, or raises something else (\<open>OtherException\<close>: for instance an
  exception of the throttler, which is entered outside the coroutine's own \<open>try\<close>).
  Logging is left out.
\<close>

datatype event = Call string string | Sleep int

datatype adapter_result =
    Summary string
  | SummarizationError string
  | OtherException string

type_synonym adapter = "event list \<Rightarrow> string \<Rightarrow> int \<Rightarrow> adapter_result"

record providers =
  openai_adapter :: adapter
  watson_adapter :: adapter
  claude_adapter :: adapter

text \<open>
  Of \<open>Config\<close> only the two fields read by \<open>main\<close> and \<open>summarize_note\<close> are kept; the
  others are credentials and model settings used inside the provider coroutines.
\<close>

record config =
  min_characters :: int
  max_retries :: int

text \<open>The parsed command line, as far as the summarising loop reads it.\<close>

record args =
  ai :: string
  extract_only :: bool
  summary_only :: bool
  summarization_level :: int

text \<open>An exception that \<open>summarize_note\<close> does not catch and that leaves the loop.\<close>

datatype error = Unhandled string

text \<open>The \<open>if ai == ... elif ...\<close> chain; \<open>None\<close> is its final \<open>else\<close>.\<close>

definition select_adapter :: "providers \<Rightarrow> string \<Rightarrow> adapter option" where
  "select_adapter P a =
     (if a = ''openai'' then Some (openai_adapter P)
      else if a = ''watson'' then Some (watson_adapter P)
      else if a = ''claude'' then Some (claude_adapter P)
      else None)"

text \<open>
  \<open>for attempt in range(config.max_retries)\<close>, as a recursion over the attempts still to
  come.  A Python function that falls off its end returns \<open>None\<close>: the result is a
  \<open>string option\<close>, \<open>None\<close> being Python's.
\<close>

fun retry_loop ::
  "providers \<Rightarrow> string \<Rightarrow> string \<Rightarrow> config \<Rightarrow> int \<Rightarrow> nat list \<Rightarrow> event list
    \<Rightarrow> (error + string option) \<times> event list" where
  "retry_loop P note a cfg lvl [] tr = (Inr None, tr)"
| "retry_loop P note a cfg lvl (attempt # rest) tr =
     (case select_adapter P a of
        None \<Rightarrow> (Inr (Some note), tr)
      | Some f \<Rightarrow>
          (case f tr note lvl of
             Summary s \<Rightarrow> (Inr (Some s), tr @ [Call a note])
           | SummarizationError e \<Rightarrow>
               (if int attempt = max_retries cfg - 1
                then (Inr (Some (''Error in summarization: '' @ e)), tr @ [Call a note])
                else retry_loop P note a cfg lvl rest
                       (tr @ [Call a note, Sleep (2 ^ attempt)]))
           | OtherException e \<Rightarrow> (Inl (Unhandled e), tr @ [Call a note])))"

definition summarize_note ::
  "providers \<Rightarrow> string \<Rightarrow> string \<Rightarrow> config \<Rightarrow> int \<Rightarrow> event list
    \<Rightarrow> (error + string option) \<times> event list" where
  "summarize_note P note a cfg lvl tr =
     retry_loop P note a cfg lvl [0 ..< nat (max_retries cfg)] tr"

section \<open>main.py: the loop over the notes\<close>

text \<open>
  Lines 74 to 89 of \<open>main\<close>.  \<open>summarize_loop\<close> is the \<open>for slide_number, note in notes\<close>
  loop with \<open>summaries\<close> as the list appended to.  There is no \<open>try\<close> inside the loop:
  an exception that leaves \<open>summarize_note\<close> leaves the loop as well and reaches the
  handlers at the end of \<open>main\<close>, which log it and exit, so that no list of summaries
  is produced (\<open>Inl\<close>).
\<close>

text \<open>
  The summary the loop body chooses for one note (lines 76 to 82): the note itself for
  the two marker texts of the extraction and for a note shorter than
  \<open>min_characters\<close>, the result of \<open>summarize_note\<close> otherwise.
\<close>

definition note_summary ::
  "providers \<Rightarrow> config \<Rightarrow> args \<Rightarrow> string \<Rightarrow> event list
    \<Rightarrow> (error + string option) \<times> event list" where
  "note_summary P cfg ar note tr =
     (if note = ''No notes found.'' \<or> note = ''No notes slide.''
      then (Inr (Some note), tr)
      else if int (length note) < min_characters cfg
      then (Inr (Some note), tr)
      else summarize_note P note (ai ar) cfg (summarization_level ar) tr)"

fun summarize_loop ::
  "providers \<Rightarrow> config \<Rightarrow> args \<Rightarrow> (int \<times> string) list
    \<Rightarrow> (int \<times> string option \<times> string) list \<Rightarrow> event list
    \<Rightarrow> (error + (int \<times> string option \<times> string) list) \<times> event list" where
  "summarize_loop P cfg ar [] summaries tr = (Inr summaries, tr)"
| "summarize_loop P cfg ar ((slide_number, note) # notes) summaries tr =
     (case note_summary P cfg ar note tr of
        (Inl e, tr') \<Rightarrow> (Inl e, tr')
      | (Inr summary, tr') \<Rightarrow>
          (if summary_only ar
           then summarize_loop P cfg ar notes (summaries @ [(slide_number, summary, [])]) tr'
           else summarize_loop P cfg ar notes (summaries @ [(slide_number, summary, note)]) tr'))"

definition main_summaries ::
  "providers \<Rightarrow> config \<Rightarrow> args \<Rightarrow> (int \<times> string) list \<Rightarrow> event list
    \<Rightarrow> (error + (int \<times> string option \<times> string) list) \<times> event list" where
  "main_summaries P cfg ar notes tr =
     (if \<not> extract_only ar then summarize_loop P cfg ar notes [] tr
      else (Inr (map (\<lambda>(slide_number, note). (slide_number, Some [], note)) notes), tr))"

section \<open>extractors.py: the notes of the slides\<close>

text \<open>
  A slide as the extraction loop meets it: without a notes slide, with one (whose text
  frame may be absent), or raising an exception when it is read.
\<close>

datatype slide = NoNotesSlide | NotesSlide "string option" | BrokenSlide string

text \<open>\<open>re.sub(r'[^\x09\x0A\x0D\x20-\x7F]', '', text)\<close>.\<close>

definition clean_text_for_xml :: "string \<Rightarrow> string" where
  "clean_text_for_xml text =
     filter (\<lambda>c. (of_char c :: nat) \<in> {9, 10, 13}
                 \<or> (32 \<le> (of_char c :: nat) \<and> (of_char c :: nat) \<le> 127)) text"

text \<open>
  \<open>for i, slide in enumerate(prs.slides)\<close> with \<open>notes_list\<close> as the list appended to
  (lines 26 to 43).
\<close>

fun extract_loop :: "nat \<Rightarrow> slide list \<Rightarrow> (int \<times> string) list \<Rightarrow> (int \<times> string) list" where
  "extract_loop i [] notes_list = notes_list"
| "extract_loop i (sl # slides) notes_list =
     extract_loop (i + 1) slides
       (notes_list @
        [(case sl of
            NotesSlide frame \<Rightarrow>
              (let notes_text = clean_text_for_xml (case frame of Some t \<Rightarrow> t | None \<Rightarrow> [])
               in (int i + 1, if notes_text \<noteq> [] then notes_text else ''No notes found.''))
          | NoNotesSlide \<Rightarrow> (int i + 1, ''No notes slide.'')
          | BrokenSlide e \<Rightarrow> (int i + 1, ''Error processing slide: '' @ e))])"

definition extract_notes_from_presentation :: "slide list \<Rightarrow> (int \<times> string) list" where
  "extract_notes_from_presentation slides = extract_loop 0 slides []"

section \<open>summarizers.py: what each provider coroutine returns\<close>

text \<open>
  The value each coroutine returns for the text its provider sent back: line 101 for
  Claude, lines 121 and 122 for OpenAI, lines 139 to 143 for Watson.
\<close>

definition claude_returns :: "string \<Rightarrow> string" where
  "claude_returns summary = clean_summary summary"

definition openai_returns :: "string \<Rightarrow> string" where
  "openai_returns content = clean_summary (strip content)"

definition watson_returns :: "string \<Rightarrow> string" where
  "watson_returns summary =
     (let sentences = split_str CHR ''.'' summary;
          bullet_points =
            map (\<lambda>sentence. ''- '' @ strip sentence)
                (filter (\<lambda>sentence. strip sentence \<noteq> []) sentences)
      in join_str ''\<newline>'' bullet_points)"

section \<open>Stub providers for concrete runs\<close>

definition always_failing :: adapter where
  "always_failing tr note lvl = SummarizationError ''provider down''"


definition failing_providers :: providers where
  "failing_providers =
     \<lparr>openai_adapter = always_failing, watson_adapter = always_failing,
      claude_adapter = always_failing\<rparr>"





section \<open>Unknown providers\<close>

text \<open>
  C10.  For a provider name other than openai, watson and claude, and at least one
  attempt allowed, \<open>summarize_note\<close> returns the note itself and leaves the trace as it
  was: no adapter is awaited and nothing sleeps.
\<close>

theorem summarize_note_unknown_provider:
  assumes "a \<noteq> ''openai''" and "a \<noteq> ''watson''" and "a \<noteq> ''claude''"
    and "1 \<le> max_retries cfg"
  shows "summarize_note P note a cfg lvl tr = (Inr (Some note), tr)"
proof -
  from assms(4) have "0 < nat (max_retries cfg)" by simp
  then have "[0 ..< nat (max_retries cfg)] = 0 # [1 ..< nat (max_retries cfg)]"
    by (simp add: upt_conv_Cons)
  moreover from assms(1-3) have "select_adapter P a = None"
    by (simp add: select_adapter_def)
  ultimately show ?thesis
    by (simp add: summarize_note_def)
qed

theorem summarize_note_unknown_provider_witness:
  "''local'' \<noteq> ''openai'' \<and> ''local'' \<noteq> ''watson'' \<and> ''local'' \<noteq> ''claude''
   \<and> 1 \<le> max_retries \<lparr>min_characters = 10, max_retries = 3\<rparr>
   \<and> summarize_note failing_providers ''some note'' ''local''
        \<lparr>min_characters = 10, max_retries = 3\<rparr> 5 [] = (Inr (Some ''some note''), [])"
  using summarize_note_unknown_provider
          [of "''local''" "\<lparr>min_characters = 10, max_retries = 3\<rparr>" failing_providers
              "''some note''" 5 "[]"]
  by simp

section \<open>Retrying\<close>







section \<open>The trace only grows\<close>





section \<open>Pass-through and dispatch\<close>

text \<open>
  C7 as stated fails: for a marker text the summary is not left out, it is the marker
  text itself, and the writers print it under the summary heading.
\<close>

theorem sentinel_summary_counterexample:
  "main_summaries failing_providers \<lparr>min_characters = 10, max_retries = 3\<rparr>
     \<lparr>ai = ''claude'', extract_only = False, summary_only = False, summarization_level = 5\<rparr>
     [(1, ''No notes found.'')] [] =
   (Inr [(1, Some ''No notes found.'', ''No notes found.'')], [])"
  by (simp add: main_summaries_def note_summary_def)

text \<open>
  C7, amended.  For a note equal to one of the two marker texts the loop body takes the
  note itself as the summary and leaves the trace as it was (no provider coroutine is
  awaited for it); the loop appends that outcome and goes on with the remaining notes.
\<close>

theorem sentinel_passes_through:
  assumes "note = ''No notes found.'' \<or> note = ''No notes slide.''"
  shows "note_summary P cfg ar note tr = (Inr (Some note), tr)
    \<and> summarize_loop P cfg ar ((slide_number, note) # notes) summaries tr =
        summarize_loop P cfg ar notes
          (summaries @ [(slide_number, Some note, if summary_only ar then [] else note)]) tr"
  using assms by (auto simp: note_summary_def)

theorem sentinel_passes_through_witness:
  "note_summary failing_providers \<lparr>min_characters = 10, max_retries = 3\<rparr>
     \<lparr>ai = ''claude'', extract_only = False, summary_only = True, summarization_level = 5\<rparr>
     ''No notes slide.'' [] = (Inr (Some ''No notes slide.''), [])
   \<and> summarize_loop failing_providers \<lparr>min_characters = 10, max_retries = 3\<rparr>
     \<lparr>ai = ''claude'', extract_only = False, summary_only = True, summarization_level = 5\<rparr>
     [(4, ''No notes slide.'')] [] [] = (Inr [(4, Some ''No notes slide.'', [])], [])"
  using sentinel_passes_through
          [of "''No notes slide.''" failing_providers
              "\<lparr>min_characters = 10, max_retries = 3\<rparr>"
              "\<lparr>ai = ''claude'', extract_only = False, summary_only = True,
                summarization_level = 5\<rparr>" "[]" 4 "[]" "[]"]
  by simp




section \<open>Every note gets its outcome\<close>

lemma retry_loop_returns:
  assumes "\<forall>f tr0 e. select_adapter P a = Some f \<longrightarrow> f tr0 nt lvl \<noteq> OtherException e"
  shows "\<exists>r tr'. retry_loop P nt a cfg lvl atts tr = (Inr r, tr')"
proof (induction atts arbitrary: tr)
  case Nil
  show ?case by simp
next
  case (Cons attempt rest)
  show ?case
  proof (cases "select_adapter P a")
    case None
    then show ?thesis by simp
  next
    case (Some f)
    show ?thesis
    proof (cases "f tr nt lvl")
      case (Summary s)
      then show ?thesis using Some by simp
    next
      case (SummarizationError e)
      then show ?thesis using Some Cons.IH by simp
    next
      case (OtherException e)
      then show ?thesis using Some assms by blast
    qed
  qed
qed

lemma note_summary_returns:
  assumes "\<forall>f tr0 e. select_adapter P (ai ar) = Some f
             \<longrightarrow> f tr0 nt (summarization_level ar) \<noteq> OtherException e"
  shows "\<exists>r tr'. note_summary P cfg ar nt tr = (Inr r, tr')"
  using retry_loop_returns [OF assms]
  by (simp add: note_summary_def summarize_note_def)


lemma summarize_loop_outcomes:
  assumes "summarize_loop P cfg ar us summaries tr = (Inr outs, tr')"
  shows "\<exists>new. outs = summaries @ new \<and>
           list_all2 (\<lambda>u out. \<exists>tr0 s. fst (note_summary P cfg ar (snd u) tr0) = Inr s
                      \<and> out = (fst u, s, if summary_only ar then [] else snd u)) us new"
  using assms
proof (induction us arbitrary: summaries tr)
  case Nil
  then show ?case by simp
next
  case (Cons u us)
  obtain slide_number nt where u: "u = (slide_number, nt)" by (cases u)
  obtain r tr1 where r: "note_summary P cfg ar nt tr = (r, tr1)"
    by (cases "note_summary P cfg ar nt tr")
  show ?case
  proof (cases r)
    case (Inl e)
    then show ?thesis using Cons.prems u r by simp
  next
    case (Inr summary)
    let ?out = "(slide_number, summary, if summary_only ar then [] else nt)"
    have "summarize_loop P cfg ar us (summaries @ [?out]) tr1 = (Inr outs, tr')"
      using Cons.prems u r Inr by (simp split: if_splits)
    then obtain new where new: "outs = (summaries @ [?out]) @ new"
      and all: "list_all2 (\<lambda>u out. \<exists>tr0 s. fst (note_summary P cfg ar (snd u) tr0) = Inr s
                      \<and> out = (fst u, s, if summary_only ar then [] else snd u)) us new"
      using Cons.IH by blast
    have "fst (note_summary P cfg ar (snd u) tr) = Inr summary"
      using u r Inr by simp
    then have "list_all2 (\<lambda>u out. \<exists>tr0 s. fst (note_summary P cfg ar (snd u) tr0) = Inr s
                      \<and> out = (fst u, s, if summary_only ar then [] else snd u))
                 (u # us) (?out # new)"
      using all u by auto
    then show ?thesis using new by auto
  qed
qed

lemma summarize_loop_returns:
  assumes "\<forall>f tr0 nt e. select_adapter P (ai ar) = Some f
             \<longrightarrow> f tr0 nt (summarization_level ar) \<noteq> OtherException e"
  shows "\<exists>outs tr'. summarize_loop P cfg ar us summaries tr = (Inr outs, tr')"
proof (induction us arbitrary: summaries tr)
  case Nil
  show ?case by simp
next
  case (Cons u us)
  obtain slide_number nt where u: "u = (slide_number, nt)" by (cases u)
  obtain r tr1 where r: "note_summary P cfg ar nt tr = (Inr r, tr1)"
    using note_summary_returns [of P ar nt cfg tr] assms by blast
  show ?case using u r Cons.IH by simp
qed

lemma extract_loop_indices:
  "map fst (extract_loop i slides acc) = map fst acc @ [int i + 1 .. int i + int (length slides)]"
proof (induction slides arbitrary: i acc)
  case Nil
  show ?case by simp
next
  case (Cons sl slides)
  have "[int i + 1 .. int i + int (length (sl # slides))] =
          (int i + 1) # [int (i + 1) + 1 .. int (i + 1) + int (length slides)]"
    by (simp add: upto_rec1 add.commute add.left_commute)
  then show ?case
    using Cons.IH [of "i + 1"] by (simp split: slide.splits add: Let_def)
qed


lemma main_summaries_indices:
  assumes "main_summaries P cfg ar us tr = (Inr outs, tr')"
  shows "map fst outs = map fst us"
proof (cases "extract_only ar")
  case True
  then have "outs = map (\<lambda>(slide_number, nt). (slide_number, Some [], nt)) us"
    using assms by (simp add: main_summaries_def)
  then show ?thesis by (simp add: case_prod_unfold comp_def)
next
  case False
  then have "summarize_loop P cfg ar us [] tr = (Inr outs, tr')"
    using assms by (simp add: main_summaries_def)
  then obtain new where new: "outs = [] @ new"
    and all: "list_all2 (\<lambda>u out. \<exists>tr0 s. fst (note_summary P cfg ar (snd u) tr0) = Inr s
                      \<and> out = (fst u, s, if summary_only ar then [] else snd u)) us new"
    using summarize_loop_outcomes by blast
  have "list_all2 (\<lambda>u out. fst out = fst u) us new"
    using all by (rule list_all2_mono) auto
  then have "map fst new = map fst us"
    by (induction rule: list_all2_induct) auto
  then show ?thesis using new by simp
qed

text \<open>
  C1.  Whenever the loop of \<open>main\<close> produces its list of outcomes, the slide numbers of
  the outcomes are those of the notes, in the same order; for the notes of the
  extraction these are 1 to N, ascending, without repetition and without gap.  The list
  is produced whenever the provider coroutine raises nothing but \<open>SummarizationError\<close>,
  whichever notes are summarised, passed through or failed.
\<close>

theorem order_preservation:
  "(main_summaries P cfg ar us tr = (Inr outs, tr') \<longrightarrow> map fst outs = map fst us)
   \<and> (main_summaries P cfg ar (extract_notes_from_presentation slides) tr = (Inr outs, tr') \<longrightarrow>
        map fst outs = [1 .. int (length slides)]
        \<and> sorted (map fst outs) \<and> distinct (map fst outs)
        \<and> set (map fst outs) = {1 .. int (length slides)})
   \<and> ((\<forall>f tr0 nt e. select_adapter P (ai ar) = Some f
           \<longrightarrow> f tr0 nt (summarization_level ar) \<noteq> OtherException e) \<longrightarrow>
        (\<exists>outs0 tr0. main_summaries P cfg ar us tr = (Inr outs0, tr0)))"
proof (intro conjI impI)
  assume "main_summaries P cfg ar us tr = (Inr outs, tr')"
  then show "map fst outs = map fst us" by (rule main_summaries_indices)
next
  assume a: "main_summaries P cfg ar (extract_notes_from_presentation slides) tr = (Inr outs, tr')"
  have "map fst (extract_notes_from_presentation slides) = [1 .. int (length slides)]"
    using extract_loop_indices [of 0 slides "[]"]
    by (simp add: extract_notes_from_presentation_def)
  then show idx: "map fst outs = [1 .. int (length slides)]"
    using main_summaries_indices [OF a] by simp
  show "sorted (map fst outs)" using idx by simp
  show "distinct (map fst outs)" using idx by simp
  show "set (map fst outs) = {1 .. int (length slides)}" using idx by simp
next
  assume "\<forall>f tr0 nt e. select_adapter P (ai ar) = Some f
           \<longrightarrow> f tr0 nt (summarization_level ar) \<noteq> OtherException e"
  then show "\<exists>outs0 tr0. main_summaries P cfg ar us tr = (Inr outs0, tr0)"
    using summarize_loop_returns [of P ar cfg us "[]" tr]
    by (simp add: main_summaries_def)
qed


theorem order_preservation_witness:
  "main_summaries failing_providers \<lparr>min_characters = 5, max_retries = 2\<rparr>
     \<lparr>ai = ''watson'', extract_only = False, summary_only = False, summarization_level = 5\<rparr>
     (extract_notes_from_presentation [NotesSlide (Some ''long enough''), NoNotesSlide, NotesSlide None])
     [] =
   (Inr [(1, Some ''Error in summarization: provider down'', ''long enough''),
         (2, Some ''No notes slide.'', ''No notes slide.''),
         (3, Some ''No notes found.'', ''No notes found.'')],
    [Call ''watson'' ''long enough'', Sleep 1, Call ''watson'' ''long enough''])
   \<and> map fst [(1, Some ''Error in summarization: provider down'', ''long enough''),
         (2, Some ''No notes slide.'', ''No notes slide.''),
         (3::int, Some ''No notes found.'', ''No notes found.'')] = [1 .. 3]"
proof -
  have run: "main_summaries failing_providers \<lparr>min_characters = 5, max_retries = 2\<rparr>
     \<lparr>ai = ''watson'', extract_only = False, summary_only = False, summarization_level = 5\<rparr>
     (extract_notes_from_presentation [NotesSlide (Some ''long enough''), NoNotesSlide, NotesSlide None])
     [] =
   (Inr [(1, Some ''Error in summarization: provider down'', ''long enough''),
         (2, Some ''No notes slide.'', ''No notes slide.''),
         (3, Some ''No notes found.'', ''No notes found.'')],
    [Call ''watson'' ''long enough'', Sleep 1, Call ''watson'' ''long enough''])"
    by (simp add: main_summaries_def note_summary_def summarize_note_def upt_rec
          select_adapter_def failing_providers_def always_failing_def
          extract_notes_from_presentation_def clean_text_for_xml_def)
  have "map fst [(1, Some ''Error in summarization: provider down'', ''long enough''),
         (2, Some ''No notes slide.'', ''No notes slide.''),
         (3::int, Some ''No notes found.'', ''No notes found.'')] =
        [1 .. int (length [NotesSlide (Some ''long enough''), NoNotesSlide, NotesSlide None])]"
    using run order_preservation
      [of failing_providers "\<lparr>min_characters = 5, max_retries = 2\<rparr>"
          "\<lparr>ai = ''watson'', extract_only = False, summary_only = False,
            summarization_level = 5\<rparr>"
          "extract_notes_from_presentation
             [NotesSlide (Some ''long enough''), NoNotesSlide, NotesSlide None]"
          "[]"
          "[(1, Some ''Error in summarization: provider down'', ''long enough''),
            (2, Some ''No notes slide.'', ''No notes slide.''),
            (3, Some ''No notes found.'', ''No notes found.'')]"
          "[Call ''watson'' ''long enough'', Sleep 1, Call ''watson'' ''long enough'']"
          "[NotesSlide (Some ''long enough''), NoNotesSlide, NotesSlide None]"]
    by blast
  then show ?thesis using run by simp
qed





section \<open>The clean-up of a summary\<close>

lemma isspace_blank [simp]: "isspace CHR '' ''"
  by (simp add: isspace_def)

lemma isspace_hyphen [simp]: "\<not> isspace CHR ''-''"
  by (simp add: isspace_def)

lemma replace_is_collapse: "replace_str ''- -'' ''-'' s = collapse s"
proof (induction s rule: collapse.induct)
  case (1 a b c rest)
  then show ?case
    by (subst replace_str.simps) auto
next
  case (2 a b)
  show ?case
    by (subst replace_str.simps, simp, subst replace_str.simps, simp,
        subst replace_str.simps, simp)
next
  case (3 a)
  show ?case
    by (subst replace_str.simps, simp, subst replace_str.simps, simp)
next
  case 4
  show ?case by (subst replace_str.simps) simp
qed


subsection \<open>Splitting and joining\<close>

lemma split_str_not_Nil [simp]: "split_str sep s \<noteq> []"
  by (induction s) (auto split: list.splits)

lemma split_str_no_sep: "l \<in> set (split_str sep s) \<Longrightarrow> sep \<notin> set l"
proof (induction s arbitrary: l)
  case Nil
  then show ?case by simp
next
  case (Cons c cs)
  show ?case
  proof (cases "c = sep")
    case True
    then show ?thesis using Cons by auto
  next
    case False
    obtain x xs where x: "split_str sep cs = x # xs"
      by (cases "split_str sep cs") simp_all
    then have "l = c # x \<or> l \<in> set xs" using Cons.prems False by simp
    then show ?thesis using Cons.IH x False by auto
  qed
qed

lemma split_str_single: "sep \<notin> set l \<Longrightarrow> split_str sep l = [l]"
  by (induction l) auto

lemma split_str_append:
  "sep \<notin> set l \<Longrightarrow> split_str sep (l @ sep # rest) = l # split_str sep rest"
  by (induction l) auto

lemma split_join:
  assumes "ls \<noteq> []" and "\<forall>l \<in> set ls. sep \<notin> set l"
  shows "split_str sep (join_str [sep] ls) = ls"
  using assms
proof (induction ls)
  case Nil
  then show ?case by simp
next
  case (Cons l ls)
  show ?case
  proof (cases ls)
    case Nil
    then show ?thesis using Cons.prems by (simp add: split_str_single)
  next
    case (Cons l' ls')
    then have "split_str sep (join_str [sep] ls) = ls"
      using Cons.IH Cons.prems by simp
    then show ?thesis
      using Cons Cons.prems by (simp add: split_str_append)
  qed
qed

lemma join_str_Nil_iff:
  "\<forall>l \<in> set ls. l \<noteq> [] \<Longrightarrow> join_str sep ls = [] \<longleftrightarrow> ls = []"
  by (induction sep ls rule: join_str.induct) auto

lemma lines_of_join:
  assumes "\<forall>l \<in> set ls. l \<noteq> [] \<and> CHR ''\<newline>'' \<notin> set l"
  shows "lines_of (join_str ''\<newline>'' ls) = ls"
proof (cases "ls = []")
  case True
  then show ?thesis by (simp add: lines_of_def)
next
  case False
  then have "join_str ''\<newline>'' ls \<noteq> []"
    using assms join_str_Nil_iff [of ls "''\<newline>''"] by blast
  then show ?thesis
    using False assms split_join [of ls "CHR ''\<newline>''"] by (simp add: lines_of_def)
qed

subsection \<open>Stripping white space\<close>

lemma last_dropWhile: "dropWhile P xs \<noteq> [] \<Longrightarrow> last (dropWhile P xs) = last xs"
  by (induction xs) (auto split: if_splits)

lemma lstrip_hd: "lstrip s \<noteq> [] \<Longrightarrow> \<not> isspace (hd (lstrip s))"
  unfolding lstrip_def by (simp add: hd_dropWhile)

lemma lstrip_last: "lstrip s \<noteq> [] \<Longrightarrow> last (lstrip s) = last s"
  unfolding lstrip_def by (rule last_dropWhile)

lemma lstrip_id: "s = [] \<or> \<not> isspace (hd s) \<Longrightarrow> lstrip s = s"
  unfolding lstrip_def by (cases s) auto


lemma rstrip_last: "rstrip s \<noteq> [] \<Longrightarrow> \<not> isspace (last (rstrip s))"
  unfolding rstrip_def by (simp add: last_rev hd_dropWhile)

lemma set_lstrip: "set (lstrip s) \<subseteq> set s"
  unfolding lstrip_def by (auto dest: set_dropWhileD)

lemma set_rstrip: "set (rstrip s) \<subseteq> set s"
  unfolding rstrip_def by (auto dest: set_dropWhileD)

lemma set_strip: "set (strip s) \<subseteq> set s"
  unfolding strip_def using set_lstrip set_rstrip by blast

lemma strip_ends:
  assumes "strip s \<noteq> []"
  shows "\<not> isspace (hd (strip s)) \<and> \<not> isspace (last (strip s))"
proof -
  have ne: "rstrip s \<noteq> []" using assms by (auto simp: strip_def lstrip_def)
  have "last (strip s) = last (rstrip s)"
    using assms lstrip_last by (simp add: strip_def)
  then show ?thesis
    using assms ne rstrip_last lstrip_hd by (simp add: strip_def)
qed

subsection \<open>Removing leading hyphens and blanks\<close>

lemma strip_bullets_result:
  assumes "s = [] \<or> (\<not> isspace (hd s) \<and> \<not> isspace (last s))"
  shows "strip_bullets s = [] \<or>
         (hd (strip_bullets s) \<noteq> CHR ''-'' \<and> \<not> isspace (hd (strip_bullets s))
          \<and> \<not> isspace (last (strip_bullets s)))"
  using assms
proof (induction s rule: strip_bullets.induct)
  case (1 s)
  show ?case
  proof (cases "prefix ''-'' s \<or> prefix '' '' s")
    case True
    then have ne: "s \<noteq> []" by auto
    have "lstrip (tl s) = [] \<or>
          (\<not> isspace (hd (lstrip (tl s))) \<and> \<not> isspace (last (lstrip (tl s))))"
    proof (cases "lstrip (tl s) = []")
      case True
      then show ?thesis by simp
    next
      case False
      then have "tl s \<noteq> []" by (auto simp: lstrip_def)
      then have "last (tl s) = last s" using ne by (metis last_tl)
      then show ?thesis
        using False lstrip_hd lstrip_last "1.prems" ne by auto
    qed
    then show ?thesis
      using "1.IH" True by (subst (1 2 3 4) strip_bullets.simps) simp
  next
    case False
    then have "strip_bullets s = s" by (subst strip_bullets.simps) simp
    moreover have "s \<noteq> [] \<Longrightarrow> hd s \<noteq> CHR ''-''"
      using False by (cases s) auto
    ultimately show ?thesis using "1.prems" by auto
  qed
qed

lemma set_strip_bullets: "set (strip_bullets s) \<subseteq> set s"
proof (induction s rule: strip_bullets.induct)
  case (1 s)
  show ?case
  proof (cases "prefix ''-'' s \<or> prefix '' '' s")
    case True
    then have "s \<noteq> []" by auto
    then have "set (lstrip (tl s)) \<subseteq> set s"
      using set_lstrip [of "tl s"] by (cases s) auto
    then show ?thesis
      using "1.IH" True by (subst strip_bullets.simps) auto
  next
    case False
    then show ?thesis by (subst strip_bullets.simps) simp
  qed
qed



subsection \<open>The replacement\<close>

lemma collapse_Cons_other: "a \<noteq> CHR ''-'' \<Longrightarrow> collapse (a # s) = a # collapse s"
  by (cases s rule: collapse.cases) (cases "tl s"; auto)+

lemma collapse_Cons_no_blank:
  "b \<noteq> CHR '' '' \<Longrightarrow> collapse (a # b # s) = a # collapse (b # s)"
  by (cases s) auto

lemma collapse_newline:
  "collapse (l @ CHR ''\<newline>'' # rest) = collapse l @ CHR ''\<newline>'' # collapse rest"
proof (induction l rule: collapse.induct)
  case (1 a b c rest')
  then show ?case by simp
next
  case (2 a b)
  show ?case by (simp add: collapse_Cons_other collapse_Cons_no_blank)
next
  case (3 a)
  show ?case
    by (cases rest) (simp_all add: collapse_Cons_other)
next
  case 4
  show ?case by (simp add: collapse_Cons_other)
qed

lemma collapse_join:
  "collapse (join_str ''\<newline>'' ls) = join_str ''\<newline>'' (map collapse ls)"
proof (induction ls)
  case Nil
  show ?case by simp
next
  case (Cons l ls)
  show ?case
  proof (cases ls)
    case Nil
    then show ?thesis by simp
  next
    case (Cons l' ls')
    then show ?thesis using Cons.IH by (simp add: collapse_newline)
  qed
qed

lemma collapse_Nil_iff [simp]: "collapse s = [] \<longleftrightarrow> s = []"
  by (induction s rule: collapse.induct) auto

lemma hd_collapse: "hd (collapse s) = hd s"
  by (induction s rule: collapse.induct) auto

lemma last_collapse: "last (collapse s) = last s"
  by (induction s rule: collapse.induct) auto

lemma set_collapse: "set (collapse s) \<subseteq> set s"
  by (induction s rule: collapse.induct) auto


lemma collapse_bullet:
  "c = [] \<or> hd c \<noteq> CHR ''-'' \<Longrightarrow> collapse (''- '' @ c) = ''- '' @ collapse c"
  by (cases c) (auto simp: collapse_Cons_other)



subsection \<open>The lines of a cleaned summary\<close>

lemma clean_lines_map:
  "clean_lines xs =
     map (\<lambda>line. ''- '' @ strip_bullets (strip line)) (filter (\<lambda>line. strip line \<noteq> []) xs)"
  by (induction xs) (simp_all add: Let_def)

lemma body_ends:
  assumes "strip line \<noteq> []"
  shows "strip_bullets (strip line) = [] \<or>
         (hd (strip_bullets (strip line)) \<noteq> CHR ''-''
          \<and> \<not> isspace (hd (strip_bullets (strip line)))
          \<and> \<not> isspace (last (strip_bullets (strip line))))"
  using strip_bullets_result [of "strip line"] strip_ends [OF assms] by blast

lemma body_no_newline:
  assumes "CHR ''\<newline>'' \<notin> set line"
  shows "CHR ''\<newline>'' \<notin> set (collapse (strip_bullets (strip line)))"
  using assms set_collapse set_strip_bullets set_strip by blast

lemma bullet_line_collapse:
  assumes "CHR ''\<newline>'' \<notin> set line" and "strip line \<noteq> []"
  shows "bullet_line (''- '' @ collapse (strip_bullets (strip line)))"
proof -
  let ?c = "strip_bullets (strip line)"
  have "collapse ?c = [] \<or>
        (hd (collapse ?c) \<noteq> CHR ''-'' \<and> \<not> isspace (hd (collapse ?c))
         \<and> \<not> isspace (last (collapse ?c)))"
    using body_ends [OF assms(2)] by (simp add: hd_collapse last_collapse)
  moreover have "CHR ''\<newline>'' \<notin> set (collapse ?c)"
    using assms(1) by (rule body_no_newline)
  ultimately show ?thesis by (simp add: bullet_line_def)
qed

lemma clean_summary_as_lines:
  "clean_summary s =
     join_str ''\<newline>''
       (map (\<lambda>line. ''- '' @ collapse (strip_bullets (strip line)))
            (filter (\<lambda>line. strip line \<noteq> []) (split_str CHR ''\<newline>'' s)))"
proof -
  have "collapse (''- '' @ strip_bullets (strip line)) =
          ''- '' @ collapse (strip_bullets (strip line))"
    if "strip line \<noteq> []" for line
    using body_ends [OF that] collapse_bullet by blast
  then have "map collapse (clean_lines xs) =
          map (\<lambda>line. ''- '' @ collapse (strip_bullets (strip line)))
              (filter (\<lambda>line. strip line \<noteq> []) xs)" for xs
    by (simp add: clean_lines_map del: append.simps)
  then show ?thesis
    by (simp add: clean_summary_def replace_is_collapse collapse_join del: append.simps)
qed

lemma clean_summary_lines:
  "lines_of (clean_summary s) =
     map (\<lambda>line. ''- '' @ collapse (strip_bullets (strip line)))
         (filter (\<lambda>line. strip line \<noteq> []) (split_str CHR ''\<newline>'' s))"
  unfolding clean_summary_as_lines
  by (rule lines_of_join) (auto dest: split_str_no_sep body_no_newline)

lemma clean_summary_bullet_lines:
  "l \<in> set (lines_of (clean_summary s)) \<Longrightarrow> bullet_line l"
proof -
  assume "l \<in> set (lines_of (clean_summary s))"
  then obtain line where line: "line \<in> set (split_str CHR ''\<newline>'' s)"
    and ne: "strip line \<noteq> []"
    and l: "l = ''- '' @ collapse (strip_bullets (strip line))"
    unfolding clean_summary_lines by auto
  have "CHR ''\<newline>'' \<notin> set line" using line by (rule split_str_no_sep)
  then show ?thesis using ne l bullet_line_collapse by blast
qed

lemma join_lines_of_clean_summary:
  "join_str ''\<newline>'' (lines_of (clean_summary s)) = clean_summary s"
  unfolding clean_summary_lines by (simp add: clean_summary_as_lines)





text \<open>
  C4 as stated fails in its last part: the test for an empty line comes before the
  hyphens are removed, so a line of hyphens is not dropped but becomes a bare marker.
\<close>

theorem hyphen_line_kept_counterexample:
  "strip_bullets (strip ''---'') = []
   \<and> clean_summary ''keep\<newline>---'' = ''- keep\<newline>- ''"
  by code_simp

text \<open>
  C4, amended.  The lines of \<open>clean_summary s\<close> are, in order, the lines of \<open>s\<close> that are
  not empty after stripping white space, each turned into the marker \<open>''- ''\<close> followed
  by what is left of the stripped line once its leading hyphens and blanks are removed
  and \<open>''- -''\<close> is replaced; a line of which nothing is left gives the bare marker.
  Every line of the result is in bullet form: it begins with the marker, the marker is
  not repeated, and no line is blank.  Joining the lines gives the result back.
\<close>

theorem clean_summary_format:
  "lines_of (clean_summary s) =
     map (\<lambda>line. ''- '' @ replace_str ''- -'' ''-'' (strip_bullets (strip line)))
         (filter (\<lambda>line. strip line \<noteq> []) (split_str CHR ''\<newline>'' s))
   \<and> (\<forall>l \<in> set (lines_of (clean_summary s)). bullet_line l)
   \<and> join_str ''\<newline>'' (lines_of (clean_summary s)) = clean_summary s"
  using clean_summary_lines clean_summary_bullet_lines join_lines_of_clean_summary
  by (simp add: replace_is_collapse)

theorem clean_summary_format_witness:
  "lines_of (clean_summary ''- - already bulleted\<newline>plain line\<newline>'') =
     [''- already bulleted'', ''- plain line'']
   \<and> bullet_line ''- already bulleted'' \<and> bullet_line ''- plain line''
   \<and> clean_summary ''- - already bulleted\<newline>plain line\<newline>'' =
       ''- already bulleted\<newline>- plain line''"
proof -
  let ?s = "''- - already bulleted\<newline>plain line\<newline>''"
  have e: "map (\<lambda>line. ''- '' @ replace_str ''- -'' ''-'' (strip_bullets (strip line)))
             (filter (\<lambda>line. strip line \<noteq> []) (split_str CHR ''\<newline>'' ?s)) =
           [''- already bulleted'', ''- plain line'']"
    by code_simp
  have l: "lines_of (clean_summary ?s) = [''- already bulleted'', ''- plain line'']"
    using clean_summary_format [of ?s] e by (simp only:)
  have b: "\<forall>l \<in> set (lines_of (clean_summary ?s)). bullet_line l"
    using clean_summary_format [of ?s] by blast
  have j: "join_str ''\<newline>'' (lines_of (clean_summary ?s)) = clean_summary ?s"
    using clean_summary_format [of ?s] by blast
  have "bullet_line ''- already bulleted''" "bullet_line ''- plain line''"
    using b unfolding l by simp_all
  moreover have "clean_summary ?s = ''- already bulleted\<newline>- plain line''"
    using j unfolding l by simp
  ultimately show ?thesis using l by blast
qed




section \<open>The Watson coroutine\<close>

text \<open>
  C6.  The Watson coroutine splits the provider's text at the periods and makes one
  bullet of every sentence that is not empty, but it returns the joined bullets as they
  are: \<open>clean_summary\<close>, which the OpenAI and Claude coroutines apply to their text, is
  not applied.  For a text whose second sentence starts with a hyphen the value
  returned has the marker twice, and \<open>clean_summary\<close> would have changed it.
\<close>

theorem watson_returns_uncleaned:
  "watson_returns ''Plan agreed. - Budget next'' = ''- Plan agreed\<newline>- - Budget next''
   \<and> clean_summary (watson_returns ''Plan agreed. - Budget next'') =
       ''- Plan agreed\<newline>- Budget next''
   \<and> claude_returns ''Plan agreed\<newline>- - Budget next'' = ''- Plan agreed\<newline>- Budget next''
   \<and> openai_returns ''Plan agreed\<newline>- - Budget next'' = ''- Plan agreed\<newline>- Budget next''"
  by code_simp

end
